theory Spec2Isabelle
  imports Main "HOL-Library.Word" "HOL-Library.Signed_Division"
begin

unbundle bit_operations_syntax

section \<open>Machine integers of the target\<close>

text \<open>
  The firmware is C for the CH552G, an 8051 core, compiled with SDCC (the sources use
  \<^verbatim>\<open>__sbit __at\<close> and \<^verbatim>\<open>__asm\<close>). \<^verbatim>\<open>uint8_t\<close> is an 8-bit word. Operands of
  \<^verbatim>\<open>*\<close> and \<^verbatim>\<open>/\<close> are promoted to \<^verbatim>\<open>int\<close>, which is 16 bits wide and signed on this
  target: \<open>c_int\<close> keeps the low 16 bits of a result, read as two's complement, and
  \<^verbatim>\<open>/\<close> truncates towards zero (\<open>sdiv\<close>).
\<close>

type_synonym u8 = "8 word"

definition c_int :: "int \<Rightarrow> int" where
  "c_int k = signed_take_bit 15 k"

section \<open>led_colors.h: palette and brightness\<close>

text \<open>
  \<^verbatim>\<open>typedef struct { uint8_t r; uint8_t g; uint8_t b; } RGB_Color;\<close>
  The fields are named \<open>color_r\<close>, \<open>color_g\<close>, \<open>color_b\<close> here, so that \<open>r\<close>, \<open>g\<close>
  and \<open>b\<close> stay free for the parameters of the functions below.
\<close>

record RGB_Color =
  color_r :: u8
  color_g :: u8
  color_b :: u8

definition COLOR_PALETTE :: "RGB_Color list" where
  "COLOR_PALETTE =
    [\<lparr>color_r = 0,   color_g = 0,   color_b = 0\<rparr>,
     \<lparr>color_r = 100, color_g = 0,   color_b = 0\<rparr>,
     \<lparr>color_r = 0,   color_g = 100, color_b = 0\<rparr>,
     \<lparr>color_r = 0,   color_g = 0,   color_b = 100\<rparr>,
     \<lparr>color_r = 100, color_g = 80,  color_b = 0\<rparr>,
     \<lparr>color_r = 0,   color_g = 100, color_b = 100\<rparr>,
     \<lparr>color_r = 100, color_g = 0,   color_b = 100\<rparr>,
     \<lparr>color_r = 100, color_g = 100, color_b = 100\<rparr>]"

abbreviation (input) DEFAULT_LED_BRIGHTNESS :: u8 where
  "DEFAULT_LED_BRIGHTNESS \<equiv> 10"

text \<open>
  \<^verbatim>\<open>applyBrightness(uint8_t *r, uint8_t *g, uint8_t *b, uint8_t brightness)\<close> updates
  the three bytes behind its pointers; the model takes their values and returns the new
  ones. Each line is \<^verbatim>\<open>*r = (*r * brightness) / 255;\<close>: the product is computed in
  \<^verbatim>\<open>int\<close>, divided, and stored back into a \<^verbatim>\<open>uint8_t\<close>.
\<close>

definition applyBrightness :: "u8 \<Rightarrow> u8 \<Rightarrow> u8 \<Rightarrow> u8 \<Rightarrow> u8 \<times> u8 \<times> u8" where
  "applyBrightness r g b brightness =
    (word_of_int (c_int (uint r * uint brightness) sdiv 255),
     word_of_int (c_int (uint g * uint brightness) sdiv 255),
     word_of_int (c_int (uint b * uint brightness) sdiv 255))"

text \<open>
  \<^verbatim>\<open>getColor(color_index, brightness, *r, *g, *b)\<close>: the three out-parameters are the
  returned triple.
\<close>

definition getColor :: "u8 \<Rightarrow> u8 \<Rightarrow> u8 \<times> u8 \<times> u8" where
  "getColor color_index brightness =
    (let color_index = (if color_index > 7 then 0 else color_index);
         r = color_r (COLOR_PALETTE ! unat color_index);
         g = color_g (COLOR_PALETTE ! unat color_index);
         b = color_b (COLOR_PALETTE ! unat color_index)
     in applyBrightness r g b brightness)"

section \<open>ws2812.h, ws2812.c: frame buffer and transport\<close>

abbreviation (input) WS2812_COUNT :: nat where
  "WS2812_COUNT \<equiv> 3"

abbreviation (input) WS2812_PIN :: nat where
  "WS2812_PIN \<equiv> 34"

text \<open>
  What the driver does to the outside world, in the order it does it: the Arduino calls
  \<^verbatim>\<open>pinMode(pin, OUTPUT)\<close>, \<^verbatim>\<open>digitalWrite(pin, level)\<close>, \<^verbatim>\<open>noInterrupts()\<close>,
  \<^verbatim>\<open>interrupts()\<close>, \<^verbatim>\<open>delayMicroseconds(us)\<close>, and a write of a level to the
  \<^verbatim>\<open>WS2812_PIN_BIT\<close> port bit by the assembly (\<^verbatim>\<open>setb\<close>, \<^verbatim>\<open>mov bit, c\<close>, \<^verbatim>\<open>clr\<close>).
  Durations are not modelled: the \<^verbatim>\<open>nop\<close>s leave no event.
\<close>

datatype event =
    PinMode_OUTPUT nat
  | DigitalWrite nat bool
  | NoInterrupts
  | Interrupts
  | DelayMicroseconds nat
  | PinBit bool

text \<open>
  The state: the array \<^verbatim>\<open>uint8_t WS2812_buffer[3 * WS2812_COUNT]\<close> as a list (its
  declared size, 9, is the invariant \<open>buffer_ok\<close>), \<^verbatim>\<open>static uint8_t *buffer_ptr\<close> as
  an offset into that array, the interrupt enable flag \<open>EA\<close> that
  \<^verbatim>\<open>noInterrupts()\<close> clears and \<^verbatim>\<open>interrupts()\<close> sets, the carry flag \<open>CY\<close> (read by
  the first \<^verbatim>\<open>rlc\<close> of \<^verbatim>\<open>WS2812_sendByte\<close> before anything has written it), and the
  events so far.
\<close>

record state =
  WS2812_buffer :: "u8 list"
  buffer_ptr :: nat
  EA :: bool
  CY :: bool
  trace :: "event list"

definition buffer_ok :: "state \<Rightarrow> bool" where
  "buffer_ok s = (length (WS2812_buffer s) = 3 * WS2812_COUNT)"

definition emit :: "event list \<Rightarrow> state \<Rightarrow> state" where
  "emit es s = s\<lparr>trace := trace s @ es\<rparr>"

text \<open>
  \<^verbatim>\<open>rlc a\<close> rotates the accumulator left through the carry: the carry takes bit 7,
  bit 0 takes the old carry. The result is the new accumulator and the new carry.
\<close>

definition rlc :: "u8 \<Rightarrow> bool \<Rightarrow> u8 \<times> bool" where
  "rlc a cy = (push_bit 1 a OR (if cy then 1 else 0), bit a 7)"

text \<open>
  The loop of \<^verbatim>\<open>WS2812_sendByte\<close>, from the label \<^verbatim>\<open>01$\<close> to \<^verbatim>\<open>djnz r7, 01$\<close>, with the
  registers \<open>r7\<close> and \<open>a\<close> as arguments: \<^verbatim>\<open>rlc a\<close>; \<^verbatim>\<open>setb\<close> drives the pin high;
  \<^verbatim>\<open>mov bit, c\<close> writes the carry to the pin; \<^verbatim>\<open>clr\<close> drives it low; \<^verbatim>\<open>djnz\<close>
  decrements \<open>r7\<close> and jumps back unless it is zero.
\<close>

function sendByte_loop :: "u8 \<Rightarrow> u8 \<Rightarrow> state \<Rightarrow> state" where
  "sendByte_loop r7 a s =
    (let (a', c) = rlc a (CY s);
         s' = emit [PinBit True, PinBit c, PinBit False] (s\<lparr>CY := c\<rparr>);
         r7' = r7 - 1
     in if r7' \<noteq> 0 then sendByte_loop r7' a' s' else s')"
  by pat_completeness auto
termination
proof (relation "measure (\<lambda>(r7, a, s). unat (r7 - 1))")
  show "wf (measure (\<lambda>(r7 :: u8, a :: u8, s :: state). unat (r7 - 1)))"
    by simp
next
  fix r7 a a' :: u8 and s s' :: state and r7' :: u8
  assume eq: "r7' = r7 - 1" and nz: "r7' \<noteq> 0"
  have "unat (r7' - 1) < unat r7'"
    using nz by (simp add: unat_minus_one unat_gt_0)
  then show "((r7', a', s'), (r7, a, s)) \<in> measure (\<lambda>(r7, a, s). unat (r7 - 1))"
    unfolding eq by (simp only: in_measure prod.case)
qed

declare sendByte_loop.simps [simp del]

text \<open>\<^verbatim>\<open>mov r7, #8\<close>, \<^verbatim>\<open>xch a, dpl\<close> (the argument arrives in \<open>dpl\<close>), then the loop.\<close>

definition WS2812_sendByte :: "u8 \<Rightarrow> state \<Rightarrow> state" where
  "WS2812_sendByte data s = sendByte_loop 8 data s"

text \<open>
  \<^verbatim>\<open>for(uint8_t i = 0; i < 3 * WS2812_COUNT; i++) WS2812_buffer[i] = 0;\<close>
  the loop that \<^verbatim>\<open>WS2812_init\<close> and \<^verbatim>\<open>WS2812_clear\<close> both contain. The comparison is
  made in \<^verbatim>\<open>int\<close>; \<open>i\<close> is a byte.
\<close>

function zero_loop :: "u8 \<Rightarrow> state \<Rightarrow> state" where
  "zero_loop i s =
    (if unat i < 3 * WS2812_COUNT
     then zero_loop (i + 1) (s\<lparr>WS2812_buffer := (WS2812_buffer s)[unat i := 0]\<rparr>)
     else s)"
  by pat_completeness auto
termination
  by (relation "measure (\<lambda>(i, s). 3 * WS2812_COUNT - unat i)")
     (auto simp: unat_word_ariths)

declare zero_loop.simps [simp del]

definition WS2812_init :: "state \<Rightarrow> state" where
  "WS2812_init s =
    zero_loop 0 (emit [DigitalWrite WS2812_PIN False] (emit [PinMode_OUTPUT WS2812_PIN] s))"

text \<open>
  The loop of \<^verbatim>\<open>WS2812_update\<close>:
  \<^verbatim>\<open>for(uint8_t i = 0; i < 3 * WS2812_COUNT; i++) WS2812_sendByte(*buffer_ptr++);\<close>
  The byte is read, the pointer moves on, then the byte is sent.
\<close>

function update_loop :: "u8 \<Rightarrow> state \<Rightarrow> state" where
  "update_loop i s =
    (if unat i < 3 * WS2812_COUNT
     then update_loop (i + 1)
            (WS2812_sendByte (WS2812_buffer s ! buffer_ptr s)
               (s\<lparr>buffer_ptr := buffer_ptr s + 1\<rparr>))
     else s)"
  by pat_completeness auto
termination
  by (relation "measure (\<lambda>(i, s). 3 * WS2812_COUNT - unat i)")
     (auto simp: unat_word_ariths)

declare update_loop.simps [simp del]

definition noInterrupts :: "state \<Rightarrow> state" where
  "noInterrupts s = emit [NoInterrupts] (s\<lparr>EA := False\<rparr>)"

definition interrupts :: "state \<Rightarrow> state" where
  "interrupts s = emit [Interrupts] (s\<lparr>EA := True\<rparr>)"

definition WS2812_update :: "state \<Rightarrow> state" where
  "WS2812_update s =
    emit [DelayMicroseconds 300]
      (interrupts (update_loop 0 (noInterrupts (s\<lparr>buffer_ptr := 0\<rparr>))))"

text \<open>
  \<^verbatim>\<open>WS2812_setPixel(pixel, r, g, b)\<close>: \<^verbatim>\<open>ptr = WS2812_buffer + (3 * pixel)\<close>, then
  three stores through \<^verbatim>\<open>ptr\<close>, green first.
\<close>

definition WS2812_setPixel :: "u8 \<Rightarrow> u8 \<Rightarrow> u8 \<Rightarrow> u8 \<Rightarrow> state \<Rightarrow> state" where
  "WS2812_setPixel pixel r g b s =
    (if unat pixel \<ge> WS2812_COUNT then s
     else let ptr = 3 * unat pixel
          in s\<lparr>WS2812_buffer :=
                 (WS2812_buffer s)[ptr := g, ptr + 1 := r, ptr + 2 := b]\<rparr>)"

definition WS2812_clear :: "state \<Rightarrow> state" where
  "WS2812_clear s = WS2812_update (zero_loop 0 s)"

definition WS2812_show :: "state \<Rightarrow> state" where
  "WS2812_show s = WS2812_update s"

section \<open>Waveforms\<close>

text \<open>
  The symbol of one bit on the wire, as the specification describes it: the line goes high, takes
  the value of the bit (a \<open>0\<close> ends the high phase here, a \<open>1\<close> prolongs it), and goes low.
  A byte is eight such symbols, bit 7 first; a frame is the bytes of the buffer in order.
\<close>

definition bit_symbol :: "bool \<Rightarrow> event list" where
  "bit_symbol c = [PinBit True, PinBit c, PinBit False]"

definition byte_symbols :: "u8 \<Rightarrow> event list" where
  "byte_symbols d = concat (map (\<lambda>k. bit_symbol (bit d k)) [7, 6, 5, 4, 3, 2, 1, 0])"

definition frame_symbols :: "u8 list \<Rightarrow> event list" where
  "frame_symbols bytes = concat (map byte_symbols bytes)"

text \<open>The events that running \<open>f\<close> from \<open>s\<close> adds to those already there.\<close>

definition emitted_by :: "(state \<Rightarrow> state) \<Rightarrow> state \<Rightarrow> event list" where
  "emitted_by f s = drop (length (trace s)) (trace (f s))"

text \<open>
  \<open>masked ea es\<close> replays the events \<open>es\<close> from the interrupt enable flag \<open>ea\<close> and holds
  when every write to the port bit happens while interrupts are disabled.
\<close>

fun masked :: "bool \<Rightarrow> event list \<Rightarrow> bool" where
  "masked ea [] = True"
| "masked ea (NoInterrupts # es) = masked False es"
| "masked ea (Interrupts # es) = masked True es"
| "masked ea (PinBit v # es) = (\<not> ea \<and> masked ea es)"
| "masked ea (_ # es) = masked ea es"

fun is_PinBit :: "event \<Rightarrow> bool" where
  "is_PinBit (PinBit v) = True"
| "is_PinBit _ = False"

text \<open>A state to run the functions on: a buffer of nine distinct bytes, nothing emitted yet.\<close>

abbreviation (input) example_state :: state where
  "example_state \<equiv>
     \<lparr>WS2812_buffer = [1, 2, 3, 4, 5, 6, 7, 8, 9], buffer_ptr = 0, EA = True,
        CY = False, trace = []\<rparr>"

section \<open>The colour resolver\<close>

lemma c_int_id: "0 \<le> k \<Longrightarrow> k < 32768 \<Longrightarrow> c_int k = k"
  unfolding c_int_def by (rule signed_take_bit_int_eq_self) simp_all

lemma sdiv_nonneg: "0 \<le> (k::int) \<Longrightarrow> 0 < l \<Longrightarrow> k sdiv l = k div l"
  by (cases "k = 0") (simp_all add: signed_divide_int_def)

text \<open>
  One line of \<open>applyBrightness\<close> on a channel of at most 128: the product stays below
  \<open>2 ^ 15\<close>, so the 16-bit \<^verbatim>\<open>int\<close> holds it, and the quotient fits the byte.
\<close>

lemma scale_channel:
  fixes c brightness :: u8
  assumes "c \<le> 128"
  shows "uint (word_of_int (c_int (uint c * uint brightness) sdiv 255) :: u8)
         = uint c * uint brightness div 255"
proof -
  let ?k = "uint c * uint brightness"
  have "uint brightness < 2 ^ LENGTH(8)"
    by (rule unsigned_less)
  then have b: "uint brightness \<le> 255"
    by simp
  have c: "uint c \<le> 128"
    using assms by (simp add: word_le_def)
  have k0: "0 \<le> ?k"
    by simp
  have "?k \<le> 128 * 255"
    using c b by (rule mult_mono) simp_all
  then have k: "?k < 32768"
    by linarith
  have q: "c_int ?k sdiv 255 = ?k div 255"
    using k0 k by (simp only: c_int_id) (rule sdiv_nonneg, simp_all)
  have q0: "0 \<le> ?k div 255"
    using k0 by (rule pos_imp_zdiv_nonneg_iff [THEN iffD2, rotated]) simp
  have "x div 255 < 256" if "x < 32768" for x :: int
    using that by linarith
  from this [OF k] have q1: "?k div 255 < 2 ^ LENGTH(8)"
    by simp
  show ?thesis
    unfolding q uint_word_of_int_eq using q0 q1 by (rule take_bit_int_eq_self)
qed

lemma color_index_cases:
  fixes i :: u8
  assumes "i \<le> 7"
  shows "i = 0 \<or> i = 1 \<or> i = 2 \<or> i = 3 \<or> i = 4 \<or> i = 5 \<or> i = 6 \<or> i = 7"
proof -
  from assms have "unat i \<le> 7" by (simp add: word_le_nat_alt)
  then have "unat i \<in> {0, 1, 2, 3, 4, 5, 6, 7}" by auto
  then have "i \<in> of_nat ` {0, 1, 2, 3, 4, 5, 6, 7}"
    by (metis image_eqI of_nat_unat ucast_id)
  then show ?thesis by auto
qed

lemma palette_bound:
  fixes i :: u8
  assumes "i \<le> 7"
  shows "color_r (COLOR_PALETTE ! unat i) \<le> 128 \<and>
         color_g (COLOR_PALETTE ! unat i) \<le> 128 \<and>
         color_b (COLOR_PALETTE ! unat i) \<le> 128"
  using color_index_cases [OF assms] by (auto simp add: COLOR_PALETTE_def)

text \<open>
  C1. For a colour index from 0 to 7 and any brightness byte, every channel that
  \<open>getColor\<close> returns is the palette's channel times the brightness, divided by 255 and
  rounded down. The palette's red, entry 1, is (100, 0, 0); at brightness 128 it gives
  (50, 0, 0), and at brightness 1 its 100 gives 0.
\<close>

theorem getColor_scaling_law:
  assumes "color_index \<le> 7"
  shows "(case getColor color_index brightness of (r', g', b') \<Rightarrow>
            uint r' = uint (color_r (COLOR_PALETTE ! unat color_index)) * uint brightness div 255 \<and>
            uint g' = uint (color_g (COLOR_PALETTE ! unat color_index)) * uint brightness div 255 \<and>
            uint b' = uint (color_b (COLOR_PALETTE ! unat color_index)) * uint brightness div 255)
         \<and> COLOR_PALETTE ! 1 = \<lparr>color_r = 100, color_g = 0, color_b = 0\<rparr>
         \<and> getColor 1 128 = (50, 0, 0)
         \<and> getColor 1 1 = (0, 0, 0)"
proof -
  have law: "case getColor color_index brightness of (r', g', b') \<Rightarrow>
            uint r' = uint (color_r (COLOR_PALETTE ! unat color_index)) * uint brightness div 255 \<and>
            uint g' = uint (color_g (COLOR_PALETTE ! unat color_index)) * uint brightness div 255 \<and>
            uint b' = uint (color_b (COLOR_PALETTE ! unat color_index)) * uint brightness div 255"
    using palette_bound [OF assms] assms
    by (simp add: getColor_def applyBrightness_def scale_channel Let_def not_less [symmetric])
  have red: "COLOR_PALETTE ! 1 = \<lparr>color_r = 100, color_g = 0, color_b = 0\<rparr>"
    by (simp add: COLOR_PALETTE_def)
  have half: "getColor 1 128 = (50, 0, 0)"
    by (simp add: getColor_def applyBrightness_def COLOR_PALETTE_def c_int_def
        signed_divide_int_def)
  have one: "getColor 1 1 = (0, 0, 0)"
    by (simp add: getColor_def applyBrightness_def COLOR_PALETTE_def c_int_def
        signed_divide_int_def)
  from law red half one show ?thesis
    by (intro conjI)
qed

theorem getColor_scaling_law_witness:
  "(4 :: u8) \<le> 7 \<and> getColor 4 200 = (78, 62, 0) \<and> getColor 1 128 = (50, 0, 0)"
  using getColor_scaling_law [of 4 200]
  by (simp add: COLOR_PALETTE_def word_uint_eq_iff split: prod.splits)

text \<open>
  C5. For a colour index above 7 and any brightness, \<open>getColor\<close> returns what it returns
  for index 0, the entry that is off: (0, 0, 0). The function has no error result.
\<close>

theorem getColor_index_out_of_range:
  assumes "7 < color_index"
  shows "getColor color_index brightness = getColor 0 brightness
         \<and> getColor color_index brightness = (0, 0, 0)"
  using assms
  by (simp add: getColor_def applyBrightness_def COLOR_PALETTE_def c_int_def
      signed_divide_int_def)

theorem getColor_index_out_of_range_witness:
  "(7 :: u8) < 9 \<and> getColor 9 200 = getColor 0 200 \<and> getColor 9 200 = (0, 0, 0)"
proof -
  have h: "(7 :: u8) < 9"
    by simp
  from h getColor_index_out_of_range [OF h, of 200] show ?thesis
    by (rule conjI)
qed

section \<open>Sending one byte\<close>

lemma rlc_bit:
  "0 < k \<Longrightarrow> k < 8 \<Longrightarrow> bit (fst (rlc a c)) k = bit a (k - 1)"
  unfolding rlc_def fst_conv bit_or_iff bit_push_bit_iff
  by (auto simp add: bit_1_iff)

lemma r7_nonzero:
  assumes "0 < n" and "n < 8"
  shows "(of_nat n :: u8) \<noteq> 0"
proof
  assume "(of_nat n :: u8) = 0"
  then have "2 ^ 8 dvd n"
    by (simp add: word_of_nat_eq_0_iff)
  then have "2 ^ 8 \<le> n"
    using \<open>0 < n\<close> by (rule_tac dvd_imp_le)
  with \<open>n < 8\<close> show False
    by simp
qed

text \<open>One pass through the loop body, with the let-bindings resolved.\<close>

lemma sendByte_loop_step:
  "sendByte_loop r7 a s =
    (if r7 - 1 \<noteq> 0
     then sendByte_loop (r7 - 1) (fst (rlc a (CY s)))
            (emit (bit_symbol (bit a 7)) (s\<lparr>CY := bit a 7\<rparr>))
     else emit (bit_symbol (bit a 7)) (s\<lparr>CY := bit a 7\<rparr>))"
  by (subst sendByte_loop.simps) (simp add: Let_def bit_symbol_def rlc_def)

text \<open>
  Entered with \<open>r7 = n\<close>, for \<open>n\<close> from 1 to 8, the loop emits the symbols of the top
  \<open>n\<close> bits of the accumulator, highest first, whatever the carry was on entry.
\<close>

lemma sendByte_loop_eq:
  "0 < n \<Longrightarrow> n \<le> 8 \<Longrightarrow>
   sendByte_loop (of_nat n) a s =
     s\<lparr>CY := bit a (8 - n),
       trace := trace s @ concat (map (\<lambda>k. bit_symbol (bit a (7 - k))) [0..<n])\<rparr>"
proof (induction n arbitrary: a s)
  case 0
  then show ?case by simp
next
  case (Suc n)
  show ?case
  proof (cases "n = 0")
    case True
    then show ?thesis
      by (subst sendByte_loop_step) (simp add: emit_def)
  next
    case False
    let ?a = "fst (rlc a (CY s))"
    let ?s = "emit (bit_symbol (bit a 7)) (s\<lparr>CY := bit a 7\<rparr>)"
    from False Suc.prems have n: "0 < n" "n \<le> 8" "n < 8"
      by simp_all
    then have nz: "(of_nat n :: u8) \<noteq> 0"
      by (simp add: r7_nonzero)
    have step: "sendByte_loop (of_nat (Suc n)) a s = sendByte_loop (of_nat n) ?a ?s"
      using nz by (subst sendByte_loop_step) simp
    have bits: "map (\<lambda>k. bit_symbol (bit ?a (7 - k))) [0..<n]
              = map (\<lambda>k. bit_symbol (bit a (7 - Suc k))) [0..<n]"
      using n by (intro map_cong refl) (simp add: rlc_bit)
    have cy: "bit ?a (8 - n) = bit a (8 - Suc n)"
      using n by (simp add: rlc_bit)
    have upt: "[0..<Suc n] = 0 # map Suc [0..<n]"
      by (simp add: upt_conv_Cons map_Suc_upt del: upt_Suc)
    show ?thesis
      unfolding step Suc.IH [OF n(1,2)] bits cy upt
      by (simp add: emit_def comp_def)
  qed
qed

lemma sendByte_eq:
  "WS2812_sendByte d s = s\<lparr>CY := bit d 0, trace := trace s @ byte_symbols d\<rparr>"
  unfolding WS2812_sendByte_def byte_symbols_def
  using sendByte_loop_eq [of 8 d s]
  by (simp add: upt_conv_Cons)

text \<open>
  The loop run as it is written, on the byte 0xA5 (binary 10100101), agrees.
\<close>

lemma sendByte_example:
  "trace (WS2812_sendByte 0xA5 example_state) =
     concat (map bit_symbol [True, False, True, False, False, True, False, True])"
  by code_simp

text \<open>
  C6. For every byte, \<open>WS2812_sendByte\<close> adds to the events exactly eight bit symbols
  and nothing between them: the symbol of bit 7 first, then bits 6, 5, 4, 3, 2, 1 and 0.
  It touches neither the buffer nor the interrupt flag.
\<close>

theorem sendByte_msb_first:
  "trace (WS2812_sendByte d s) =
     trace s @ bit_symbol (bit d 7) @ bit_symbol (bit d 6) @ bit_symbol (bit d 5)
       @ bit_symbol (bit d 4) @ bit_symbol (bit d 3) @ bit_symbol (bit d 2)
       @ bit_symbol (bit d 1) @ bit_symbol (bit d 0)
   \<and> WS2812_buffer (WS2812_sendByte d s) = WS2812_buffer s
   \<and> EA (WS2812_sendByte d s) = EA s"
  by (simp add: sendByte_eq byte_symbols_def)

text \<open>The waveform of a byte determines the byte, and that of a frame its bytes.\<close>

lemma byte_symbols_length: "length (byte_symbols d) = 24"
  by (simp add: byte_symbols_def bit_symbol_def)

lemma byte_symbols_inject: "byte_symbols d = byte_symbols d' \<Longrightarrow> d = d'"
proof (rule bit_eqI)
  fix n
  assume eq: "byte_symbols d = byte_symbols d'" and "possible_bit TYPE(u8) n"
  then have "n < 8"
    by (simp add: possible_bit_word)
  then have "n \<in> {0, 1, 2, 3, 4, 5, 6, 7}"
    by auto
  with eq show "bit d n = bit d' n"
    by (auto simp add: byte_symbols_def bit_symbol_def)
qed

lemma frame_symbols_inject:
  "frame_symbols xs = frame_symbols ys \<Longrightarrow> xs = ys"
proof (induction xs arbitrary: ys)
  case Nil
  then show ?case
    by (cases ys) (simp_all add: frame_symbols_def byte_symbols_def bit_symbol_def)
next
  case (Cons x xs)
  show ?case
  proof (cases ys)
    case Nil
    with Cons.prems show ?thesis
      by (simp add: frame_symbols_def byte_symbols_def bit_symbol_def)
  next
    case (Cons y ys')
    with Cons.prems have "byte_symbols x @ frame_symbols xs = byte_symbols y @ frame_symbols ys'"
      by (simp add: frame_symbols_def)
    then have "byte_symbols x = byte_symbols y \<and> frame_symbols xs = frame_symbols ys'"
      by (simp add: byte_symbols_length)
    with Cons.IH Cons show ?thesis
      by (simp add: byte_symbols_inject)
  qed
qed

lemma frame_symbols_PinBit: "list_all is_PinBit (frame_symbols bytes)"
  by (induction bytes) (simp_all add: frame_symbols_def byte_symbols_def bit_symbol_def)

lemma masked_frame: "masked False (frame_symbols bytes @ es) = masked False es"
  by (induction bytes) (simp_all add: frame_symbols_def byte_symbols_def bit_symbol_def)

text \<open>The check is not empty: a byte sent with interrupts enabled fails it.\<close>

lemma masked_rejects_enabled: "\<not> masked True (frame_symbols [d])"
  by (simp add: frame_symbols_def byte_symbols_def bit_symbol_def)

section \<open>Sending the buffer\<close>

lemma unat_index_suc:
  fixes i :: u8
  assumes "unat i < 9"
  shows "unat (i + 1) = Suc (unat i)"
  using assms by (simp add: unat_word_ariths)

lemma update_loop_buffer: "WS2812_buffer (update_loop i s) = WS2812_buffer s"
  by (induction i s rule: update_loop.induct)
     (subst update_loop.simps, simp add: sendByte_eq)

lemma update_loop_EA: "EA (update_loop i s) = EA s"
  by (induction i s rule: update_loop.induct)
     (subst update_loop.simps, simp add: sendByte_eq)

text \<open>
  From counter \<open>i\<close> the loop sends the \<open>9 - i\<close> bytes that start at \<open>buffer_ptr\<close>.
\<close>

lemma update_loop_trace:
  "trace (update_loop i s) =
     trace s @ frame_symbols (map (\<lambda>j. WS2812_buffer s ! (buffer_ptr s + j)) [0..<9 - unat i])"
proof (induction i s rule: update_loop.induct)
  case (1 i s)
  show ?case
  proof (cases "unat i < 9")
    case True
    then have "9 - unat i = Suc (8 - unat i)"
      by simp
    then have upt: "[0..<9 - unat i] = 0 # map Suc [0..<8 - unat i]"
      by (simp only: upt_conv_Cons map_Suc_upt zero_less_Suc)
    from True 1 show ?thesis
      unfolding upt
      by (subst update_loop.simps)
         (simp add: sendByte_eq unat_index_suc frame_symbols_def comp_def)
  next
    case False
    then show ?thesis
      by (subst update_loop.simps) (simp add: frame_symbols_def)
  qed
qed

lemma update_trace:
  assumes "buffer_ok s"
  shows "trace (WS2812_update s) =
           trace s @ NoInterrupts # frame_symbols (WS2812_buffer s)
             @ [Interrupts, DelayMicroseconds 300]"
proof -
  from assms have len: "length (WS2812_buffer s) = 9"
    by (simp add: buffer_ok_def)
  have "map (\<lambda>j. WS2812_buffer s ! j) [0..<length (WS2812_buffer s)] = WS2812_buffer s"
    by (rule map_nth)
  then have "map (\<lambda>j. WS2812_buffer s ! j) [0..<9] = WS2812_buffer s"
    unfolding len .
  then show ?thesis
    by (simp add: WS2812_update_def emit_def interrupts_def noInterrupts_def update_loop_trace)
qed

lemma update_emitted:
  assumes "buffer_ok s"
  shows "emitted_by WS2812_update s =
           NoInterrupts # frame_symbols (WS2812_buffer s) @ [Interrupts, DelayMicroseconds 300]"
  by (simp add: emitted_by_def update_trace [OF assms])

lemma update_buffer: "WS2812_buffer (WS2812_update s) = WS2812_buffer s"
  by (simp add: WS2812_update_def emit_def interrupts_def noInterrupts_def update_loop_buffer)

lemma update_EA: "EA (WS2812_update s)"
  by (simp add: WS2812_update_def emit_def interrupts_def noInterrupts_def)

section \<open>Writing the buffer\<close>

lemma zero_loop_step:
  fixes i :: u8
  shows "unat i < 9 \<Longrightarrow>
    zero_loop i s = zero_loop (i + 1) (s\<lparr>WS2812_buffer := (WS2812_buffer s)[unat i := 0]\<rparr>)"
  and "\<not> unat i < 9 \<Longrightarrow> zero_loop i s = s"
  by (subst zero_loop.simps, simp)+

lemma zero_loop_others:
  "buffer_ptr (zero_loop i s) = buffer_ptr s \<and> EA (zero_loop i s) = EA s \<and>
   CY (zero_loop i s) = CY s \<and> trace (zero_loop i s) = trace s \<and>
   state.more (zero_loop i s) = state.more s"
proof (induction i s rule: zero_loop.induct)
  case (1 i s)
  then show ?case
    by (cases "unat i < 9") (simp_all add: zero_loop_step)
qed

lemma zero_loop_length:
  "length (WS2812_buffer (zero_loop i s)) = length (WS2812_buffer s)"
proof (induction i s rule: zero_loop.induct)
  case (1 i s)
  then show ?case
    by (cases "unat i < 9") (simp_all add: zero_loop_step)
qed

lemma zero_loop_nth:
  "j < length (WS2812_buffer s) \<Longrightarrow>
   WS2812_buffer (zero_loop i s) ! j =
     (if unat i \<le> j \<and> j < 9 then 0 else WS2812_buffer s ! j)"
proof (induction i s rule: zero_loop.induct)
  case (1 i s)
  show ?case
  proof (cases "unat i < 9")
    case True
    with 1 show ?thesis
      by (auto simp add: zero_loop_step(1) unat_index_suc nth_list_update)
  next
    case False
    then show ?thesis
      by (auto simp add: zero_loop_step(2))
  qed
qed

lemma zero_loop_buffer:
  assumes "buffer_ok s"
  shows "WS2812_buffer (zero_loop 0 s) = replicate 9 0"
proof (rule nth_equalityI)
  from assms show len: "length (WS2812_buffer (zero_loop 0 s)) = length (replicate 9 (0 :: u8))"
    by (simp add: zero_loop_length buffer_ok_def)
  fix j
  assume "j < length (WS2812_buffer (zero_loop 0 s))"
  with assms have "j < length (WS2812_buffer s)" "j < 9"
    by (simp_all add: zero_loop_length buffer_ok_def)
  then show "WS2812_buffer (zero_loop 0 s) ! j = replicate 9 0 ! j"
    by (simp add: zero_loop_nth)
qed

lemma zero_loop_eq:
  assumes "buffer_ok s"
  shows "zero_loop 0 s = s\<lparr>WS2812_buffer := replicate 9 0\<rparr>"
  by (rule state.equality) (simp_all add: zero_loop_others zero_loop_buffer [OF assms])

lemma replicate_nine: "replicate 9 x = [x, x, x, x, x, x, x, x, x]"
  by (simp add: eval_nat_numeral)

lemma nine_bytes:
  assumes "length (xs :: 'a list) = 9"
  obtains a0 a1 a2 a3 a4 a5 a6 a7 a8 where "xs = [a0, a1, a2, a3, a4, a5, a6, a7, a8]"
  using assms by (auto simp add: eval_nat_numeral length_Suc_conv)

lemma pixel_cases:
  fixes pixel :: u8
  assumes "unat pixel < 3"
  shows "pixel = 0 \<or> pixel = 1 \<or> pixel = 2"
proof -
  from assms have "unat pixel \<in> {0, 1, 2}"
    by auto
  then have "pixel \<in> of_nat ` {0, 1, 2}"
    by (metis image_eqI of_nat_unat ucast_id)
  then show ?thesis
    by auto
qed

lemma setPixel_buffer:
  assumes "unat pixel < 3" and "buffer_ok s"
  shows "WS2812_buffer (WS2812_setPixel pixel r g b s) =
           take (3 * unat pixel) (WS2812_buffer s) @ [g, r, b]
             @ drop (3 * unat pixel + 3) (WS2812_buffer s)"
proof -
  from assms(2) obtain a0 a1 a2 a3 a4 a5 a6 a7 a8
    where "WS2812_buffer s = [a0, a1, a2, a3, a4, a5, a6, a7, a8]"
    unfolding buffer_ok_def by (auto elim: nine_bytes)
  with pixel_cases [OF assms(1)] show ?thesis
    by (auto simp add: WS2812_setPixel_def)
qed

lemma setPixel_others:
  "buffer_ptr (WS2812_setPixel pixel r g b s) = buffer_ptr s"
  "EA (WS2812_setPixel pixel r g b s) = EA s"
  "CY (WS2812_setPixel pixel r g b s) = CY s"
  "trace (WS2812_setPixel pixel r g b s) = trace s"
  "length (WS2812_buffer (WS2812_setPixel pixel r g b s)) = length (WS2812_buffer s)"
  by (simp_all add: WS2812_setPixel_def Let_def)

lemma setPixel_buffer_ok: "buffer_ok (WS2812_setPixel pixel r g b s) = buffer_ok s"
  by (simp add: buffer_ok_def setPixel_others)

lemma init_eq:
  assumes "buffer_ok s"
  shows "WS2812_init s =
           s\<lparr>WS2812_buffer := replicate 9 0,
             trace := trace s @ [PinMode_OUTPUT WS2812_PIN, DigitalWrite WS2812_PIN False]\<rparr>"
proof -
  let ?s = "emit [DigitalWrite WS2812_PIN False] (emit [PinMode_OUTPUT WS2812_PIN] s)"
  from assms have "buffer_ok ?s"
    by (simp add: buffer_ok_def emit_def)
  then have "zero_loop 0 ?s = ?s\<lparr>WS2812_buffer := replicate 9 0\<rparr>"
    by (rule zero_loop_eq)
  then show ?thesis
    by (simp add: WS2812_init_def emit_def)
qed

lemma clear_eq:
  assumes "buffer_ok s"
  shows "WS2812_clear s = WS2812_update (s\<lparr>WS2812_buffer := replicate 9 0\<rparr>)"
  by (simp add: WS2812_clear_def zero_loop_eq [OF assms])

lemma clear_emitted:
  assumes "buffer_ok s"
  shows "emitted_by WS2812_clear s =
           NoInterrupts # frame_symbols (replicate 9 0) @ [Interrupts, DelayMicroseconds 300]"
proof -
  have "buffer_ok (s\<lparr>WS2812_buffer := replicate 9 0\<rparr>)"
    by (simp add: buffer_ok_def)
  from update_trace [OF this] show ?thesis
    unfolding emitted_by_def clear_eq [OF assms] by simp
qed

lemma example_state_ok: "buffer_ok example_state"
  by (simp add: buffer_ok_def)

section \<open>Properties of the frame buffer and the transport\<close>

text \<open>
  C2. A pixel written with \<open>WS2812_setPixel pixel r g b\<close> and then sent by
  \<open>WS2812_update\<close> goes out as the byte \<open>g\<close>, then \<open>r\<close>, then \<open>b\<close>, after the bytes of the
  pixels before it and before those of the pixels after it. For pixel 0 written with
  r = 0x00, g = 0xFF, b = 0x00 the first three bytes on the wire are 0xFF, 0x00, 0x00.
\<close>

theorem setPixel_update_wire_order:
  assumes "unat pixel < WS2812_COUNT" and "buffer_ok s"
  shows "trace (WS2812_update (WS2812_setPixel pixel r g b s)) =
           trace s @ [NoInterrupts]
           @ frame_symbols (take (3 * unat pixel) (WS2812_buffer s))
           @ byte_symbols g @ byte_symbols r @ byte_symbols b
           @ frame_symbols (drop (3 * unat pixel + 3) (WS2812_buffer s))
           @ [Interrupts, DelayMicroseconds 300]"
proof -
  from assms(2) have "buffer_ok (WS2812_setPixel pixel r g b s)"
    by (simp add: setPixel_buffer_ok)
  from update_trace [OF this] show ?thesis
    by (simp add: setPixel_others setPixel_buffer [OF assms] frame_symbols_def)
qed

theorem setPixel_update_wire_order_witness:
  "unat (0 :: u8) < WS2812_COUNT
   \<and> buffer_ok example_state
   \<and> trace (WS2812_update (WS2812_setPixel 0 0x00 0xFF 0x00 example_state)) =
      [NoInterrupts] @ byte_symbols 0xFF @ byte_symbols 0x00 @ byte_symbols 0x00
      @ frame_symbols [4, 5, 6, 7, 8, 9] @ [Interrupts, DelayMicroseconds 300]"
  using setPixel_update_wire_order [of 0 example_state "0x00" "0xFF" "0x00"]
  by (simp add: buffer_ok_def frame_symbols_def)

text \<open>
  C3 as stated fails: it says that \<open>WS2812_clear\<close> transmits nothing. The function ends
  with a call of \<open>WS2812_update\<close>, so on return a whole frame of zero bytes has been
  sent: from \<open>example_state\<close> the events it adds are these, and not none.
\<close>

theorem clear_does_transmit_counterexample:
  "emitted_by WS2812_clear example_state
   = NoInterrupts # frame_symbols [0, 0, 0, 0, 0, 0, 0, 0, 0]
       @ [Interrupts, DelayMicroseconds 300]
   \<and> emitted_by WS2812_clear example_state \<noteq> []"
  unfolding clear_emitted [OF example_state_ok] replicate_nine by simp

text \<open>
  C3, amended. \<open>WS2812_clear\<close> sets every byte of the buffer to 0 and then transmits
  the cleared frame itself: what it emits is one transmission of nine zero bytes.
\<close>

theorem clear_zeroes_and_transmits:
  assumes "buffer_ok s"
  shows "WS2812_buffer (WS2812_clear s) = replicate (3 * WS2812_COUNT) 0
    \<and> emitted_by WS2812_clear s =
        NoInterrupts # frame_symbols (replicate (3 * WS2812_COUNT) 0)
          @ [Interrupts, DelayMicroseconds 300]"
proof -
  have "WS2812_buffer (WS2812_clear s) = replicate 9 0"
    unfolding clear_eq [OF assms] update_buffer by simp
  moreover note clear_emitted [OF assms]
  ultimately show ?thesis
    by simp
qed

theorem clear_zeroes_and_transmits_witness:
  "buffer_ok example_state
   \<and> WS2812_buffer (WS2812_clear example_state) = [0, 0, 0, 0, 0, 0, 0, 0, 0]
   \<and> emitted_by WS2812_clear example_state =
        NoInterrupts # frame_symbols [0, 0, 0, 0, 0, 0, 0, 0, 0]
          @ [Interrupts, DelayMicroseconds 300]"
proof -
  from clear_zeroes_and_transmits [OF example_state_ok]
  have "WS2812_buffer (WS2812_clear example_state) = replicate 9 0"
    and "emitted_by WS2812_clear example_state =
        NoInterrupts # frame_symbols (replicate 9 0) @ [Interrupts, DelayMicroseconds 300]"
    by simp_all
  with example_state_ok show ?thesis
    unfolding replicate_nine by (intro conjI)
qed

text \<open>
  C4. With a pixel index of 3 or more, \<open>WS2812_setPixel\<close> returns the state it was
  given: no byte of the buffer changes, nothing is emitted, and the function has no error
  result to give.
\<close>

theorem setPixel_out_of_range_noop:
  assumes "WS2812_COUNT \<le> unat pixel"
  shows "WS2812_setPixel pixel r g b s = s"
  using assms by (simp add: WS2812_setPixel_def)

theorem setPixel_out_of_range_noop_witness:
  "WS2812_COUNT \<le> unat (3 :: u8)
   \<and> WS2812_setPixel 3 10 20 30 example_state = example_state
   \<and> WS2812_setPixel 255 10 20 30 example_state = example_state"
  using setPixel_out_of_range_noop [of 3 10 20 30 example_state]
    setPixel_out_of_range_noop [of 255 10 20 30 example_state]
  by simp

text \<open>
  C7. \<open>WS2812_init\<close>, then \<open>WS2812_setPixel 1 100 0 0\<close>, then \<open>WS2812_update\<close>: the
  buffer that is sent holds 0, 0, 0, 0, 100, 0, 0, 0, 0, and the transmission is the
  symbols of exactly these nine bytes, each as eight symbols from bit 7 down, between
  \<open>NoInterrupts\<close> and \<open>Interrupts\<close>, followed by the latch delay of 300 microseconds.
\<close>

theorem init_setPixel_update_scenario:
  assumes "buffer_ok s"
  shows "WS2812_buffer (WS2812_setPixel 1 100 0 0 (WS2812_init s))
           = [0, 0, 0, 0, 100, 0, 0, 0, 0]
    \<and> emitted_by WS2812_update (WS2812_setPixel 1 100 0 0 (WS2812_init s)) =
        NoInterrupts # frame_symbols [0, 0, 0, 0, 100, 0, 0, 0, 0]
          @ [Interrupts, DelayMicroseconds 300]
    \<and> trace (WS2812_update (WS2812_setPixel 1 100 0 0 (WS2812_init s))) =
        trace s @ [PinMode_OUTPUT WS2812_PIN, DigitalWrite WS2812_PIN False]
          @ emitted_by WS2812_update (WS2812_setPixel 1 100 0 0 (WS2812_init s))
    \<and> byte_symbols 0 =
        concat (map bit_symbol [False, False, False, False, False, False, False, False])
    \<and> byte_symbols 100 =
        concat (map bit_symbol [False, True, True, False, False, True, False, False])"
proof -
  let ?s = "WS2812_setPixel 1 100 0 0 (WS2812_init s)"
  have buf: "WS2812_buffer ?s = [0, 0, 0, 0, 100, 0, 0, 0, 0]"
    by (simp add: init_eq [OF assms] WS2812_setPixel_def replicate_nine)
  then have ok: "buffer_ok ?s"
    by (simp add: buffer_ok_def)
  have tr: "trace ?s = trace s @ [PinMode_OUTPUT WS2812_PIN, DigitalWrite WS2812_PIN False]"
    by (simp add: setPixel_others init_eq [OF assms])
  have b0: "byte_symbols 0 =
        concat (map bit_symbol [False, False, False, False, False, False, False, False])"
    by (simp add: byte_symbols_def)
  have b100: "byte_symbols 100 =
        concat (map bit_symbol [False, True, True, False, False, True, False, False])"
    by (simp add: byte_symbols_def bit_numeral_word_iff)
  from buf b0 b100 show ?thesis
    unfolding update_emitted [OF ok] update_trace [OF ok] buf tr
    by simp
qed

theorem init_setPixel_update_scenario_witness:
  "buffer_ok example_state
   \<and> trace (WS2812_update (WS2812_setPixel 1 100 0 0 (WS2812_init example_state))) =
      [PinMode_OUTPUT WS2812_PIN, DigitalWrite WS2812_PIN False, NoInterrupts]
      @ frame_symbols [0, 0, 0, 0, 100, 0, 0, 0, 0] @ [Interrupts, DelayMicroseconds 300]"
proof -
  from init_setPixel_update_scenario [OF example_state_ok]
  have "emitted_by WS2812_update (WS2812_setPixel 1 100 0 0 (WS2812_init example_state)) =
        NoInterrupts # frame_symbols [0, 0, 0, 0, 100, 0, 0, 0, 0]
          @ [Interrupts, DelayMicroseconds 300]"
    and "trace (WS2812_update (WS2812_setPixel 1 100 0 0 (WS2812_init example_state))) =
        trace example_state @ [PinMode_OUTPUT WS2812_PIN, DigitalWrite WS2812_PIN False]
          @ emitted_by WS2812_update (WS2812_setPixel 1 100 0 0 (WS2812_init example_state))"
    by blast+
  with example_state_ok show ?thesis
    by simp
qed

text \<open>
  C8. \<open>WS2812_update\<close> leaves the buffer as it was, and what it emits depends on the
  buffer alone: two states with the same buffer give the same events, whatever their
  carry, interrupt flag, pointer or history; so a second call right after the first
  emits the same events again.
\<close>

theorem update_deterministic:
  assumes "buffer_ok s" and "WS2812_buffer t = WS2812_buffer s"
  shows "WS2812_buffer (WS2812_update s) = WS2812_buffer s
    \<and> emitted_by WS2812_update (WS2812_update s) = emitted_by WS2812_update s
    \<and> emitted_by WS2812_update t = emitted_by WS2812_update s
    \<and> trace (WS2812_update (WS2812_update s)) =
        trace s @ emitted_by WS2812_update s @ emitted_by WS2812_update s"
proof -
  from assms have ok_t: "buffer_ok t"
    by (simp add: buffer_ok_def)
  from assms(1) have ok_u: "buffer_ok (WS2812_update s)"
    by (simp add: buffer_ok_def update_buffer)
  show ?thesis
    unfolding update_emitted [OF assms(1)] update_emitted [OF ok_t] update_emitted [OF ok_u]
      update_trace [OF ok_u] update_trace [OF assms(1)]
    by (simp add: update_buffer assms(2))
qed

theorem update_deterministic_witness:
  "buffer_ok example_state
   \<and> WS2812_buffer \<lparr>WS2812_buffer = [1, 2, 3, 4, 5, 6, 7, 8, 9], buffer_ptr = 4, EA = False,
        CY = True, trace = [DelayMicroseconds 7]\<rparr>
     = WS2812_buffer example_state
   \<and> emitted_by WS2812_update \<lparr>WS2812_buffer = [1, 2, 3, 4, 5, 6, 7, 8, 9], buffer_ptr = 4,
        EA = False, CY = True, trace = [DelayMicroseconds 7]\<rparr>
     = emitted_by WS2812_update example_state
   \<and> emitted_by WS2812_update (WS2812_update example_state)
     = emitted_by WS2812_update example_state"
proof -
  let ?t = "\<lparr>WS2812_buffer = [1, 2, 3, 4, 5, 6, 7, 8, 9], buffer_ptr = 4, EA = False,
        CY = True, trace = [DelayMicroseconds 7]\<rparr>"
  have same: "WS2812_buffer ?t = WS2812_buffer example_state"
    by simp
  from update_deterministic [OF example_state_ok same] example_state_ok same show ?thesis
    by blast
qed

text \<open>
  C9. What \<open>WS2812_update\<close> emits starts with \<open>NoInterrupts\<close>; then come the writes to
  the port bit for the nine bytes and nothing else; then \<open>Interrupts\<close>, and the delay.
  Replayed from the interrupt flag the call was entered with, every write to the port bit
  falls where interrupts are disabled, and on return the flag is set: interrupts are
  enabled again. The function has one exit, at its end.
\<close>

theorem update_interrupts_masked:
  assumes "buffer_ok s"
  shows "emitted_by WS2812_update s =
           NoInterrupts # frame_symbols (WS2812_buffer s) @ [Interrupts, DelayMicroseconds 300]
    \<and> list_all is_PinBit (frame_symbols (WS2812_buffer s))
    \<and> masked (EA s) (emitted_by WS2812_update s)
    \<and> EA (WS2812_update s)"
  unfolding update_emitted [OF assms]
  by (simp add: frame_symbols_PinBit masked_frame update_EA)

theorem update_interrupts_masked_witness:
  "buffer_ok example_state
   \<and> masked True (emitted_by WS2812_update example_state)
   \<and> EA (WS2812_update example_state)"
proof -
  from update_interrupts_masked [OF example_state_ok]
  have "masked (EA example_state) (emitted_by WS2812_update example_state)"
    and "EA (WS2812_update example_state)"
    by blast+
  with example_state_ok show ?thesis
    by simp
qed

text \<open>
  C10. With a pixel index below 3, \<open>WS2812_setPixel pixel r g b\<close> keeps the buffer's
  size and every byte at an offset other than \<open>3 * pixel\<close>, \<open>3 * pixel + 1\<close> and
  \<open>3 * pixel + 2\<close>; these three become \<open>g\<close>, \<open>r\<close> and \<open>b\<close>.
\<close>

theorem setPixel_frame_rule:
  assumes "unat pixel < WS2812_COUNT" and "buffer_ok s"
  shows "buffer_ok (WS2812_setPixel pixel r g b s)
    \<and> (\<forall>j. j \<noteq> 3 * unat pixel \<and> j \<noteq> 3 * unat pixel + 1 \<and> j \<noteq> 3 * unat pixel + 2 \<longrightarrow>
          WS2812_buffer (WS2812_setPixel pixel r g b s) ! j = WS2812_buffer s ! j)
    \<and> WS2812_buffer (WS2812_setPixel pixel r g b s) ! (3 * unat pixel) = g
    \<and> WS2812_buffer (WS2812_setPixel pixel r g b s) ! (3 * unat pixel + 1) = r
    \<and> WS2812_buffer (WS2812_setPixel pixel r g b s) ! (3 * unat pixel + 2) = b"
proof -
  from assms have "3 * unat pixel + 2 < length (WS2812_buffer s)"
    by (simp add: buffer_ok_def)
  with assms(1) have
    "(\<forall>j. j \<noteq> 3 * unat pixel \<and> j \<noteq> 3 * unat pixel + 1 \<and> j \<noteq> 3 * unat pixel + 2 \<longrightarrow>
          WS2812_buffer (WS2812_setPixel pixel r g b s) ! j = WS2812_buffer s ! j)
    \<and> WS2812_buffer (WS2812_setPixel pixel r g b s) ! (3 * unat pixel) = g
    \<and> WS2812_buffer (WS2812_setPixel pixel r g b s) ! (3 * unat pixel + 1) = r
    \<and> WS2812_buffer (WS2812_setPixel pixel r g b s) ! (3 * unat pixel + 2) = b"
    by (simp add: WS2812_setPixel_def Let_def)
  moreover from assms(2) have "buffer_ok (WS2812_setPixel pixel r g b s)"
    by (simp only: setPixel_buffer_ok)
  ultimately show ?thesis
    by (rule conjI [rotated])
qed

theorem setPixel_frame_rule_witness:
  "unat (1 :: u8) < WS2812_COUNT
   \<and> buffer_ok example_state
   \<and> WS2812_buffer (WS2812_setPixel 1 10 20 30 example_state)
       = [1, 2, 3, 20, 10, 30, 7, 8, 9]"
  using setPixel_frame_rule [of 1 example_state 10 20 30]
  by (simp add: buffer_ok_def WS2812_setPixel_def)

end
